theory Spec2Isabelle
  imports Main
begin

section \<open>Exceptions\<close>

text \<open>
  The exceptions the two source files can raise, as values. \<open>OtherError\<close> stands for
  any exception class the code does not treat specially (an \<open>OSError\<close> of the reader, a
  failure inside the parser, ...), tagged with a description.
\<close>

datatype error =
    ValueError
  | TypeError
  | AttributeError
  | EOFError
  | UnboundLocalError
  | OtherError string

section \<open>zim\_to\_corpus/html.py\<close>

subsection \<open>The two compiled patterns\<close>

text \<open>
  The fragment of the regular expressions of Python's \<open>re\<close> that the two patterns use:
  a pattern is a sequence of character classes, each taken once or one or more times
  (\<open>+\<close>). A literal character is the class holding that character alone.
\<close>

datatype item = One "char list" | OneOrMore "char list"

type_synonym pattern = "item list"

text \<open>
  \<open>ends p s\<close> lists what is left of \<open>s\<close> after each way in which \<open>p\<close> can match at the
  start of \<open>s\<close>, the longest repetition first (the quantifier is greedy).
\<close>

fun ends :: "pattern \<Rightarrow> string \<Rightarrow> string list" where
  "ends [] s = [s]"
| "ends (One cl # p) [] = []"
| "ends (One cl # p) (c # s) = (if c \<in> set cl then ends p s else [])"
| "ends (OneOrMore cl # p) [] = []"
| "ends (OneOrMore cl # p) (c # s) =
     (if c \<in> set cl then ends (OneOrMore cl # p) s @ ends p s else [])"

text \<open>
  \<open>pattern.match(s)\<close> succeeds when the pattern matches at the start of \<open>s\<close>, whatever
  follows the match; \<open>pattern.fullmatch(s)\<close> when it matches the whole of \<open>s\<close>. The
  match object is truthy and \<open>None\<close> is falsy, so both are modelled by a truth value.
\<close>

definition re_match :: "pattern \<Rightarrow> string \<Rightarrow> bool" where
  "re_match p s = (ends p s \<noteq> [])"

definition re_fullmatch :: "pattern \<Rightarrow> string \<Rightarrow> bool" where
  "re_fullmatch p s = ([] \<in> set (ends p s))"

text \<open>\<^verbatim>\<open>headerp = re.compile('[hH][0-9]+')\<close>\<close>

definition headerp :: pattern where
  "headerp = [One ''hH'', OneOrMore ''0123456789'']"

text \<open>\<^verbatim>\<open>listp = re.compile('[ou]l')\<close>\<close>

definition listp :: pattern where
  "listp = [One ''ou'', One ''l'']"

subsection \<open>The parse tree\<close>

text \<open>
  A page element of BeautifulSoup is a \<open>Tag\<close>, with its name and its \<open>contents\<close> (the
  ordered children), or a string. \<open>NavigableString\<close> stands for a string of the class
  \<open>NavigableString\<close> itself or of \<open>CData\<close>, the text of the page; \<open>OtherString\<close> for a
  string of any other class (a \<open>Comment\<close>, a \<open>Doctype\<close>, the \<open>Script\<close>, \<open>Stylesheet\<close> or
  \<open>TemplateString\<close> inside a script, style or template element, ...). Attributes are
  left out: no function of the module reads them.
\<close>

datatype node = Tag string "node list" | NavigableString string | OtherString string

text \<open>
  \<open>element.name\<close>: the tag name of a \<open>Tag\<close>; a string of whatever class has the name
  \<open>None\<close>.
\<close>

fun name :: "node \<Rightarrow> string option" where
  "name (Tag n cs) = Some n"
| "name (NavigableString s) = None"
| "name (OtherString s) = None"

text \<open>
  \<open>element.get_text()\<close>: the strings below the element whose class is
  \<open>NavigableString\<close> or \<open>CData\<close>, concatenated in document order; the strings of the
  other classes are left out.
\<close>

fun get_text :: "node \<Rightarrow> string" where
  "get_text (Tag n cs) = concat (map get_text cs)"
| "get_text (NavigableString s) = s"
| "get_text (OtherString s) = []"

subsection \<open>get\_title\<close>

text \<open>
  \<^verbatim>\<open>
  def get_title(section: Tag) -> str:
      for child in section.children:
          if headerp.match(child.name):
              return child.get_text()
      else:
          raise ValueError('No header in section')
  \<close>
  \<open>headerp.match(None)\<close> raises \<open>TypeError\<close> (expected string or bytes-like object):
  this is what the loop does when it reaches a text child. The loop has no \<open>break\<close>, so
  its \<open>else\<close> branch runs whenever the children are exhausted.
\<close>

fun get_title_loop :: "node list \<Rightarrow> error + string" where
  "get_title_loop [] = Inl ValueError"
| "get_title_loop (child # rest) =
     (case name child of
        None \<Rightarrow> Inl TypeError
      | Some n \<Rightarrow> if re_match headerp n then Inr (get_text child) else get_title_loop rest)"

fun get_title :: "node \<Rightarrow> error + string" where
  "get_title (Tag n cs) = get_title_loop cs"
| "get_title (NavigableString s) = Inl AttributeError"
| "get_title (OtherString s) = Inl AttributeError"

subsection \<open>sections\_backwards\<close>

text \<open>
  \<^verbatim>\<open>
  def sections_backwards(tree: Union[BeautifulSoup, Tag]) -> Generator[Tag, None, None]:
      if isinstance(tree, BeautifulSoup):
          yield from sections_backwards(tree.body)
      for child in tree.contents[::-1]:
          if isinstance(child, Tag) and child.name == 'section':
              yield from sections_backwards(child)
      else:
          if tree.name == 'section':
              yield tree
  \<close>
  The generator is modelled by the list of what it yields, in the order of the yields.
\<close>

text \<open>\<open>isinstance(child, Tag) and child.name == 'section'\<close>\<close>

fun is_section :: "node \<Rightarrow> bool" where
  "is_section (Tag n cs) = (n = ''section'')"
| "is_section (NavigableString s) = False"
| "is_section (OtherString s) = False"

text \<open>
  The function on a \<open>Tag\<close> that is not the \<open>BeautifulSoup\<close> object, given by its name
  and contents: the loop over the reversed contents, then the \<open>else\<close> branch of the loop
  (there is no \<open>break\<close>, so it always runs). \<open>yield_from_child\<close> is the body of the
  loop.
\<close>

fun sections_backwards_Tag :: "string \<Rightarrow> node list \<Rightarrow> node list"
  and yield_from_child :: "node \<Rightarrow> node list" where
  "sections_backwards_Tag n cs =
     concat (map yield_from_child (rev cs)) @ (if n = ''section'' then [Tag n cs] else [])"
| "yield_from_child (Tag n cs) = (if n = ''section'' then sections_backwards_Tag n cs else [])"
| "yield_from_child (NavigableString s) = []"
| "yield_from_child (OtherString s) = []"

text \<open>
  \<open>tree.body\<close> is \<open>tree.find('body')\<close>: the first \<open>Tag\<close> named \<open>body\<close> below the tree,
  in document order, or \<open>None\<close>.
\<close>

fun find_first :: "string \<Rightarrow> node list \<Rightarrow> node option" where
  "find_first nm [] = None"
| "find_first nm (Tag n cs # rest) =
     (if n = nm then Some (Tag n cs)
      else case find_first nm cs of Some t \<Rightarrow> Some t | None \<Rightarrow> find_first nm rest)"
| "find_first nm (NavigableString s # rest) = find_first nm rest"
| "find_first nm (OtherString s # rest) = find_first nm rest"

text \<open>
  The argument of the function: the \<open>BeautifulSoup\<close> object (a \<open>Tag\<close> of its own class,
  named \<open>[document]\<close>, given by its contents), any other page element, or \<open>None\<close>,
  which the function passes to itself when the document has no body.
\<close>

datatype tree = BeautifulSoup "node list" | Element node | NoneValue

text \<open>
  An argument that is not the \<open>BeautifulSoup\<close> object. \<open>None\<close> and a string have no
  \<open>contents\<close>: reading it raises \<open>AttributeError\<close>, at the first value the generator is
  asked for.
\<close>

fun sections_backwards_other :: "node option \<Rightarrow> error + node list" where
  "sections_backwards_other None = Inl AttributeError"
| "sections_backwards_other (Some (NavigableString s)) = Inl AttributeError"
| "sections_backwards_other (Some (OtherString s)) = Inl AttributeError"
| "sections_backwards_other (Some (Tag n cs)) = Inr (sections_backwards_Tag n cs)"

text \<open>
  For the \<open>BeautifulSoup\<close> object the function first yields from the body and then goes
  on, with no \<open>return\<close> in between, to the loop over the document's own contents; the
  name of the document is \<open>[document]\<close>, so the last test fails for it.
\<close>

fun sections_backwards :: "tree \<Rightarrow> error + node list" where
  "sections_backwards (BeautifulSoup cs) =
     (case sections_backwards_other (find_first ''body'' cs) of
        Inl e \<Rightarrow> Inl e
      | Inr ys \<Rightarrow> Inr (ys @ sections_backwards_Tag ''[document]'' cs))"
| "sections_backwards (Element t) = sections_backwards_other (Some t)"
| "sections_backwards NoneValue = sections_backwards_other None"

subsection \<open>Document order, for stating what the traversal yields\<close>

text \<open>
  These definitions are not in the source: they say what "each section of the tree,
  once, in document order" means, so that the traversal can be compared with it.
  An element of a tree is identified by its position, the list of child indices that
  leads to it from the root. \<open>doc_order t\<close> lists every element of \<open>t\<close> with its
  position, in document order (an element before its children, the children from first
  to last).
\<close>

fun doc_order :: "node \<Rightarrow> (nat list \<times> node) list"
  and doc_order_from :: "nat \<Rightarrow> node list \<Rightarrow> (nat list \<times> node) list" where
  "doc_order (Tag n cs) = ([], Tag n cs) # doc_order_from 0 cs"
| "doc_order (NavigableString s) = [([], NavigableString s)]"
| "doc_order (OtherString s) = [([], OtherString s)]"
| "doc_order_from i [] = []"
| "doc_order_from i (c # cs) = map (apfst (Cons i)) (doc_order c) @ doc_order_from (Suc i) cs"

text \<open>The element at a position, if the position exists in the tree.\<close>

fun node_at :: "node \<Rightarrow> nat list \<Rightarrow> node option" where
  "node_at t [] = Some t"
| "node_at (Tag n cs) (i # q) = (if i < length cs then node_at (cs ! i) q else None)"
| "node_at (NavigableString s) (i # q) = None"
| "node_at (OtherString s) (i # q) = None"

text \<open>Every section element of the tree, in document order.\<close>

definition all_sections :: "node \<Rightarrow> node list" where
  "all_sections t = map snd (filter (\<lambda>(q, d). is_section d) (doc_order t))"

text \<open>
  \<open>section_path t q\<close>: every element on the way from \<open>t\<close> to the position \<open>q\<close>, the
  element at \<open>q\<close> included and \<open>t\<close> itself excluded, is a section.
\<close>

fun section_path :: "node \<Rightarrow> nat list \<Rightarrow> bool" where
  "section_path t [] = True"
| "section_path (Tag n cs) (i # q) =
     (i < length cs \<and> is_section (cs ! i) \<and> section_path (cs ! i) q)"
| "section_path (NavigableString s) (i # q) = False"
| "section_path (OtherString s) (i # q) = False"

text \<open>
  The sections of \<open>t\<close> that are reached from \<open>t\<close> through sections only, with their
  positions, in document order.
\<close>

definition chained_sections :: "node \<Rightarrow> (nat list \<times> node) list" where
  "chained_sections t = filter (\<lambda>(q, d). is_section d \<and> section_path t q) (doc_order t)"

text \<open>Every section of \<open>t\<close> is reached from \<open>t\<close> through sections only.\<close>

definition sections_nested_in_sections :: "node \<Rightarrow> bool" where
  "sections_nested_in_sections t =
     list_all (\<lambda>(q, d). is_section d \<longrightarrow> section_path t q) (doc_order t)"

section \<open>scripts/extract\_zim\_htmls.py\<close>

subsection \<open>The world of the script\<close>

text \<open>
  What the script calls and does not define: the dump reader and the parser of
  \<open>zim_to_corpus/wiki.py\<close>, \<open>json.dumps\<close>, \<open>gzip.open\<close> and \<open>os.listdir\<close>. They are
  parameters of the model.
  \<^item> \<open>enumerate_static_dump f\<close> is the behaviour of the generator on the file \<open>f\<close>: the
    records it yields, in order, and how it ends, \<open>None\<close> when it is exhausted and
    \<open>Some e\<close> when it raises \<open>e\<close> instead of yielding a further record (\<open>EOFError\<close> for
    a truncated archive).
  \<^item> \<open>parse\<close> is \<open>ZimHtmlParser.parse\<close> and \<open>prettify\<close> the method of its result; either
    may raise.
  \<^item> \<open>dumps\<close> is \<open>json.dumps\<close> on a string. It and \<open>print\<close> are taken to succeed.
  \<^item> \<open>gzip_open f\<close> is \<open>Some e\<close> when opening \<open>f\<close> for writing raises \<open>e\<close>.
  \<^item> \<open>listdir d\<close> is the list of names \<open>os.listdir(d)\<close> returns, or the error it
    raises.
\<close>

record 'wp env =
  enumerate_static_dump :: "string \<Rightarrow> string list \<times> error option"
  parse :: "string \<Rightarrow> error + 'wp"
  prettify :: "'wp \<Rightarrow> error + string"
  dumps :: "string \<Rightarrow> string"
  gzip_open :: "string \<Rightarrow> error option"
  listdir :: "string \<Rightarrow> error + string list"

text \<open>
  The calls of \<open>logging\<close>, with the values their messages are formatted from:
  \<^item> \<open>Debug_Converting i o\<close>: \<open>logging.debug(f'Converting {input_file} to {output_file}...')\<close>
  \<^item> \<open>Debug_Converted k i o\<close>:
    \<open>logging.debug(f'Converted {doc_no} documents from {input_file} to {output_file}.')\<close>
  \<^item> \<open>Log_Error e\<close>: \<open>logging.error(ee)\<close>
  \<^item> \<open>Log_Exception i k e\<close>:
    \<open>logging.exception(f'Error in {input_file}, document {doc_no}.')\<close> while \<open>e\<close> is handled
  \<^item> \<open>Info_Scheduled n\<close>: \<open>logging.info(f'Scheduled {len(in_out_files)} files for conversion.')\<close>
  \<^item> \<open>Info_Done n\<close>: \<open>logging.info(f'Done. Converted a total of {total_docs} documents.')\<close>
\<close>

datatype log_record =
    Debug_Converting string string
  | Debug_Converted nat string string
  | Log_Error error
  | Log_Exception string nat error
  | Info_Scheduled nat
  | Info_Done nat

text \<open>
  The state the script acts on: the files it writes, each the list of the lines printed
  to it (\<open>None\<close> for a path where there is no file), and the log.
\<close>

record state =
  files :: "string \<Rightarrow> string list option"
  log :: "log_record list"

definition logging :: "log_record \<Rightarrow> state \<Rightarrow> state" where
  "logging r st = st\<lparr>log := log st @ [r]\<rparr>"

subsection \<open>convert\_to\_json\<close>

text \<open>
  \<^verbatim>\<open>
  def convert_to_json(input_file: str, output_file: str) -> int:
      logging.debug(f'Converting {input_file} to {output_file}...')
      try:
          with gzip.open(output_file, 'wt') as outf:
              for doc_no, html in enumerate(enumerate_static_dump(input_file), 1):
                  wp = ZimHtmlParser.parse(html)
                  print(json.dumps(wp.prettify()), file=outf)
      except EOFError as ee:
          logging.error(ee)
          return doc_no
      except:
          logging.exception(f'Error in {input_file}, document {doc_no}.')
          raise

      logging.debug(f'Converted {doc_no} documents from '
                    f'{input_file} to {output_file}.')
      return doc_no
  \<close>
\<close>

text \<open>
  The body of the loop up to the argument of \<open>print\<close>:
  \<open>json.dumps(wp.prettify())\<close> for \<open>wp = ZimHtmlParser.parse(html)\<close>, or the exception
  raised on the way.
\<close>

definition json_line :: "'wp env \<Rightarrow> string \<Rightarrow> error + string" where
  "json_line env html =
     (case parse env html of
        Inl e \<Rightarrow> Inl e
      | Inr wp \<Rightarrow> (case prettify env wp of
                    Inl e \<Rightarrow> Inl e
                  | Inr pretty \<Rightarrow> Inr (dumps env pretty)))"

text \<open>
  The \<open>for\<close> loop. \<open>i\<close> is the counter of \<open>enumerate(..., 1)\<close>, \<open>doc_no\<close> the local
  variable (\<open>None\<close> while it is unbound), then come the records the reader has still to
  yield and how it ends, and \<open>outf\<close>, the lines printed so far. The result is the
  exception that leaves the loop (\<open>None\<close> when the loop ends normally), the variable
  \<open>doc_no\<close> and the lines printed. Each iteration binds \<open>doc_no\<close> before the body runs;
  \<open>print\<close> appends one line.
\<close>

fun for_loop ::
  "'wp env \<Rightarrow> nat \<Rightarrow> nat option \<Rightarrow> string list \<Rightarrow> error option \<Rightarrow> string list
     \<Rightarrow> error option \<times> nat option \<times> string list" where
  "for_loop env i doc_no [] ending outf = (ending, doc_no, outf)"
| "for_loop env i doc_no (html # rest) ending outf =
     (case json_line env html of
        Inl e \<Rightarrow> (Some e, Some i, outf)
      | Inr line \<Rightarrow> for_loop env (Suc i) (Some i) rest ending (outf @ [line]))"

text \<open>
  The \<open>try\<close> block: the exception that leaves it, if any, the variable \<open>doc_no\<close>, and
  the lines of the output file when \<open>gzip.open\<close> has created it. \<open>gzip.open(..., 'wt')\<close>
  creates the file, or empties the one that is there, before the reader is called; the
  \<open>with\<close> statement closes the file however the block is left, so the lines printed
  before an exception stay in the file.
\<close>

definition try_block ::
  "'wp env \<Rightarrow> string \<Rightarrow> string \<Rightarrow> error option \<times> nat option \<times> string list option" where
  "try_block env input_file output_file =
     (case gzip_open env output_file of
        Some e \<Rightarrow> (Some e, None, None)
      | None \<Rightarrow>
          (case enumerate_static_dump env input_file of
             (records, ending) \<Rightarrow>
               (case for_loop env 1 None records ending [] of
                  (exc, doc_no, outf) \<Rightarrow> (exc, doc_no, Some outf))))"

text \<open>
  Reading \<open>doc_no\<close> while it is unbound raises \<open>UnboundLocalError\<close>. All three places
  that read it do so before anything else happens there: the \<open>return\<close> of the first
  handler (after its \<open>logging.error\<close>), the message of \<open>logging.exception\<close> in the second
  handler (so nothing is logged and \<open>raise\<close> is not reached), and the message of the
  last \<open>logging.debug\<close>.
\<close>

definition convert_to_json ::
  "'wp env \<Rightarrow> string \<Rightarrow> string \<Rightarrow> state \<Rightarrow> (error + nat) \<times> state" where
  "convert_to_json env input_file output_file st =
     (let st1 = logging (Debug_Converting input_file output_file) st in
      case try_block env input_file output_file of
        (exc, doc_no, written) \<Rightarrow>
          (let st2 = (case written of
                        None \<Rightarrow> st1
                      | Some outf \<Rightarrow> st1\<lparr>files := (files st1)(output_file \<mapsto> outf)\<rparr>)
           in case exc of
                Some e \<Rightarrow>
                  if e = EOFError then
                    (let st3 = logging (Log_Error e) st2 in
                     case doc_no of
                       None \<Rightarrow> (Inl UnboundLocalError, st3)
                     | Some k \<Rightarrow> (Inr k, st3))
                  else
                    (case doc_no of
                       None \<Rightarrow> (Inl UnboundLocalError, st2)
                     | Some k \<Rightarrow> (Inl e, logging (Log_Exception input_file k e) st2))
              | None \<Rightarrow>
                  (case doc_no of
                     None \<Rightarrow> (Inl UnboundLocalError, st2)
                   | Some k \<Rightarrow>
                       (Inr k, logging (Debug_Converted k input_file output_file) st2))))"

subsection \<open>main\<close>

text \<open>
  \<^verbatim>\<open>
      in_out_files = [(op.join(args.input_dir, f), op.join(args.output_dir, f))
                      for f in os.listdir(args.input_dir)]
      logging.info(f'Scheduled {len(in_out_files)} files for conversion.')
      with Pool(args.processes) as pool:
          total_docs = sum(pool.starmap(convert_to_json, in_out_files))
      logging.info(f'Done. Converted a total of {total_docs} documents.')
  \<close>
  The arguments are taken as parsed and checked; the set-up before these lines (the
  logging configuration, \<open>os.nice\<close>, the creation of the output directory) is not
  modelled, a missing output directory shows as a \<open>gzip_open\<close> that fails.
\<close>

record args =
  input_dir :: string
  output_dir :: string
  processes :: nat

text \<open>\<open>posixpath.join(a, b)\<close>\<close>

definition op_join :: "string \<Rightarrow> string \<Rightarrow> string" where
  "op_join a b =
     (if b \<noteq> [] \<and> hd b = CHR ''/'' then b
      else if a = [] \<or> last a = CHR ''/'' then a @ b
      else a @ ''/'' @ b)"

definition in_out_files :: "args \<Rightarrow> string list \<Rightarrow> (string \<times> string) list" where
  "in_out_files a names = map (\<lambda>f. (op_join (input_dir a) f, op_join (output_dir a) f)) names"

text \<open>
  \<open>pool.starmap(convert_to_json, in_out_files)\<close>, as \<open>multiprocessing.pool\<close> of CPython
  3.8 and later defines it. \<open>Pool(processes)\<close> raises \<open>ValueError\<close> when the number of
  processes is less than 1. \<open>starmap\<close> cuts the list into tasks, consecutive chunks of
  \<open>chunksize\<close> pairs:
  \<^verbatim>\<open>
      chunksize, extra = divmod(len(iterable), len(self._pool) * 4)
      if extra:
          chunksize += 1
      if len(iterable) == 0:
          chunksize = 0
  \<close>
  and \<open>_get_tasks\<close> yields the chunks:
  \<^verbatim>\<open>
      it = iter(it)
      while 1:
          x = tuple(itertools.islice(it, size))
          if not x:
              return
          yield (func, x)
  \<close>
\<close>

definition chunksize :: "nat \<Rightarrow> nat \<Rightarrow> nat" where
  "chunksize len procs =
     (if len = 0 then 0
      else len div (procs * 4) + (if len mod (procs * 4) = 0 then 0 else 1))"

function get_tasks :: "'a list \<Rightarrow> nat \<Rightarrow> 'a list list" where
  "get_tasks it sz =
     (if take sz it = [] then [] else take sz it # get_tasks (drop sz it) sz)"
  by pat_completeness auto
termination
  by (relation "measure (\<lambda>(it, sz). length it)") auto

declare get_tasks.simps [simp del]

text \<open>
  A worker process runs a task as \<open>list(itertools.starmap(convert_to_json, chunk))\<close>:
  it calls the function on the pairs of the chunk in order, and when a call raises, the
  task ends with that exception and the pairs that remain in the chunk are not called.
\<close>

fun starmapstar ::
  "'wp env \<Rightarrow> (string \<times> string) list \<Rightarrow> state \<Rightarrow> (error + nat list) \<times> state" where
  "starmapstar env [] st = (Inr [], st)"
| "starmapstar env ((input_file, output_file) # rest) st =
     (case convert_to_json env input_file output_file st of
        (Inl e, st1) \<Rightarrow> (Inl e, st1)
      | (Inr k, st1) \<Rightarrow>
          (case starmapstar env rest st1 of
             (Inl e, st2) \<Rightarrow> (Inl e, st2)
           | (Inr ks, st2) \<Rightarrow> (Inr (k # ks), st2)))"

text \<open>
  Every task is run, whether or not another one has raised: the result of the map is
  ready only when all tasks are done. The workers are separate processes that share
  nothing but the file system and the log; the model runs the tasks one after the
  other in the order of the list. (In which order the log records of different tasks
  interleave depends on the scheduling; no statement below depends on it.)
\<close>

fun run_tasks ::
  "'wp env \<Rightarrow> (string \<times> string) list list \<Rightarrow> state \<Rightarrow> (error + nat list) list \<times> state" where
  "run_tasks env [] st = ([], st)"
| "run_tasks env (chunk # chunks) st =
     (case starmapstar env chunk st of
        (r, st1) \<Rightarrow> (case run_tasks env chunks st1 of (rs, st2) \<Rightarrow> (r # rs, st2)))"

text \<open>
  What \<open>starmap\<close> returns or raises: the results of the tasks in the order of the list,
  when every task has succeeded, and otherwise the exception of a task that has raised
  (the one whose result arrived first; the model takes the first in the order of the
  list, and no statement below depends on which it is).
\<close>

fun map_result :: "(error + nat list) list \<Rightarrow> error + nat list" where
  "map_result [] = Inr []"
| "map_result (Inl e # rs) = Inl e"
| "map_result (Inr ks # rs) =
     (case map_result rs of Inl e \<Rightarrow> Inl e | Inr ks' \<Rightarrow> Inr (ks @ ks'))"

definition pool_starmap ::
  "'wp env \<Rightarrow> nat \<Rightarrow> (string \<times> string) list \<Rightarrow> state \<Rightarrow> (error + nat list) \<times> state" where
  "pool_starmap env procs pairs st =
     (case run_tasks env (get_tasks pairs (chunksize (length pairs) procs)) st of
        (rs, st1) \<Rightarrow> (map_result rs, st1))"

text \<open>
  \<open>main\<close> returns nothing; the model returns \<open>total_docs\<close>, the number the last message
  reports, or the exception that ends the run.
\<close>

definition main :: "'wp env \<Rightarrow> args \<Rightarrow> state \<Rightarrow> (error + nat) \<times> state" where
  "main env a st =
     (case listdir env (input_dir a) of
        Inl e \<Rightarrow> (Inl e, st)
      | Inr names \<Rightarrow>
          (let st1 = logging (Info_Scheduled (length (in_out_files a names))) st in
           if processes a < 1 then (Inl ValueError, st1)
           else
             (case pool_starmap env (processes a) (in_out_files a names) st1 of
                (Inl e, st2) \<Rightarrow> (Inl e, st2)
              | (Inr counts, st2) \<Rightarrow>
                  (Inr (sum_list counts), logging (Info_Done (sum_list counts)) st2))))"

section \<open>Definitions for stating the claims\<close>


text \<open>
  The lines of the records that are converted before the first record whose conversion
  raises, in the order of the records.
\<close>

fun lines_of :: "'wp env \<Rightarrow> string list \<Rightarrow> string list" where
  "lines_of env [] = []"
| "lines_of env (html # rest) =
     (case json_line env html of Inl e \<Rightarrow> [] | Inr line \<Rightarrow> line # lines_of env rest)"

text \<open>
  What the call of \<open>convert_to_json\<close> on a pair of files returns or raises. It does not
  depend on the state in which the call is made (\<open>convert_to_json_outcome\<close> below).
\<close>

definition worker_outcome :: "'wp env \<Rightarrow> string \<Rightarrow> string \<Rightarrow> error + nat" where
  "worker_outcome env input_file output_file =
     fst (convert_to_json env input_file output_file \<lparr>files = (\<lambda>p. None), log = []\<rparr>)"

text \<open>
  A small world for the examples: a directory \<open>in\<close> whose listing is \<open>a\<close>, \<open>b\<close>. The
  archive \<open>in/a\<close> holds three records; \<open>in/b\<close> is truncated after one record;
  \<open>in/c\<close> is truncated before its first record; reading \<open>in/d\<close> fails before the first
  record with an error that is not the truncation; \<open>in/e\<close> holds one record, on which
  the parser raises \<open>ValueError\<close>. Every output file can be opened.
\<close>

definition example_env :: "string env" where
  "example_env =
     \<lparr>enumerate_static_dump =
        (\<lambda>f. if f = ''in/a'' then ([''p1'', ''p2'', ''p3''], None)
             else if f = ''in/b'' then ([''q1''], Some EOFError)
             else if f = ''in/c'' then ([], Some EOFError)
             else if f = ''in/d'' then ([], Some (OtherError ''IsADirectoryError''))
             else if f = ''in/e'' then ([''bad''], None)
             else ([], None)),
      parse = (\<lambda>html. if html = ''bad'' then Inl ValueError else Inr html),
      prettify = (\<lambda>wp. Inr wp),
      dumps = (\<lambda>pretty. pretty),
      gzip_open = (\<lambda>f. None),
      listdir = (\<lambda>d. Inr [''a'', ''b''])\<rparr>"

definition empty_state :: state where
  "empty_state = \<lparr>files = (\<lambda>p. None), log = []\<rparr>"


text \<open>
  The same world with five names in the listing, the first of them the archive that is
  truncated before its first record, and one worker process.
\<close>

definition example_env_five :: "string env" where
  "example_env_five = example_env\<lparr>listdir := (\<lambda>d. Inr [''c'', ''a'', ''b'', ''d'', ''e''])\<rparr>"

definition example_args_one :: args where
  "example_args_one = \<lparr>input_dir = ''in'', output_dir = ''out'', processes = 1\<rparr>"

subsection \<open>What the claims about the patterns compare the code with\<close>

text \<open>
  The header pattern as the specification words it: the letter \<open>h\<close> followed by one or
  more digits, and nothing else.
\<close>

definition h_followed_by_digits :: "string \<Rightarrow> bool" where
  "h_followed_by_digits s =
     (case s of
        [] \<Rightarrow> False
      | c # ds \<Rightarrow> c = CHR ''h'' \<and> ds \<noteq> [] \<and> list_all (\<lambda>d. d \<in> set ''0123456789'') ds)"

text \<open>
  Modelled from the spec: how \<open>listp\<close> is applied to a tag name. The module only compiles
  the pattern; the code that applies it is in \<open>zim_to_corpus/wiki.py\<close>, which is not
  among the sources. The specification says that the tag name is exactly \<open>ul\<close> or
  \<open>ol\<close>, so the pattern of the source is matched against the whole name.
\<close>

definition is_list_container :: "string \<Rightarrow> bool" where
  "is_list_container nm = re_fullmatch listp nm"

section \<open>Properties of zim\_to\_corpus/html.py\<close>

subsection \<open>The patterns\<close>

text \<open>
  Claim C5, as amended. The header pattern is applied with \<open>match\<close>, which anchors the
  pattern at the start of the name only, and its first class holds both \<open>h\<close> and \<open>H\<close>.
  So a tag name is recognised as a header exactly when it begins with \<open>h\<close> or \<open>H\<close>
  followed by a digit; whatever follows is ignored. Every name that is \<open>h\<close> followed
  by one or more digits (the number of digits is not bounded) is recognised.
\<close>

theorem headerp_match_iff:
  "(re_match headerp s \<longleftrightarrow>
      (\<exists>c d rest. s = c # d # rest \<and> c \<in> {CHR ''h'', CHR ''H''} \<and> d \<in> set ''0123456789''))
   \<and> (h_followed_by_digits s \<longrightarrow> re_match headerp s)"
proof -
  have iff: "re_match headerp s \<longleftrightarrow>
      (\<exists>c d rest. s = c # d # rest \<and> c \<in> {CHR ''h'', CHR ''H''} \<and> d \<in> set ''0123456789'')"
  proof (cases s)
    case Nil
    then show ?thesis by (simp add: re_match_def headerp_def)
  next
    case outer: (Cons c s')
    show ?thesis
    proof (cases s')
      case Nil
      with outer show ?thesis by (simp add: re_match_def headerp_def)
    next
      case (Cons d rest)
      with outer show ?thesis by (auto simp: re_match_def headerp_def)
    qed
  qed
  have "re_match headerp s" if h: "h_followed_by_digits s"
  proof -
    from h obtain ds where s: "s = CHR ''h'' # ds" and ds: "ds \<noteq> []"
      "list_all (\<lambda>d. d \<in> set ''0123456789'') ds"
      by (auto simp: h_followed_by_digits_def split: list.splits)
    from ds obtain d rest where "ds = d # rest" "d \<in> set ''0123456789''"
      by (cases ds) auto
    with s iff show ?thesis by blast
  qed
  with iff show ?thesis by blast
qed

theorem headerp_match_iff_witness:
  "h_followed_by_digits ''h12'' \<and> re_match headerp ''h12'' \<and> \<not> re_match headerp ''hr''
   \<and> \<not> re_match headerp ''th''"
  using headerp_match_iff [of "''h12''"] headerp_match_iff [of "''hr''"]
    headerp_match_iff [of "''th''"]
  by (simp add: h_followed_by_digits_def)

text \<open>
  Claim C5 as stated fails in both directions the amendment names: \<open>H1\<close> and \<open>h1x\<close> are
  recognised as headers by the code, and neither is \<open>h\<close> followed by digits only.
\<close>

theorem headerp_counterexample:
  "(re_match headerp ''H1'' \<and> \<not> h_followed_by_digits ''H1'')
   \<and> (re_match headerp ''h1x'' \<and> \<not> h_followed_by_digits ''h1x'')"
  by (simp add: re_match_def headerp_def h_followed_by_digits_def)

text \<open>
  Claim C8. Matched against the whole tag name, the list pattern of the source accepts
  the names \<open>ul\<close> and \<open>ol\<close> and no other.
\<close>

theorem listp_exactly_ul_ol:
  "is_list_container s \<longleftrightarrow> s = ''ul'' \<or> s = ''ol''"
proof (cases s)
  case Nil
  then show ?thesis by (simp add: is_list_container_def re_fullmatch_def listp_def)
next
  case outer: (Cons c s')
  show ?thesis
  proof (cases s')
    case Nil
    with outer show ?thesis by (simp add: is_list_container_def re_fullmatch_def listp_def)
  next
    case (Cons d rest)
    with outer show ?thesis by (auto simp: is_list_container_def re_fullmatch_def listp_def)
  qed
qed

text \<open>
  Were the list pattern applied with \<open>match\<close>, as the header pattern is in \<open>get_title\<close>,
  it would accept every name that begins with \<open>ul\<close> or \<open>ol\<close>.
\<close>

lemma listp_match_iff:
  "re_match listp s \<longleftrightarrow> (\<exists>rest. s = ''ul'' @ rest \<or> s = ''ol'' @ rest)"
proof (cases s)
  case Nil
  then show ?thesis by (simp add: re_match_def listp_def)
next
  case outer: (Cons c s')
  show ?thesis
  proof (cases s')
    case Nil
    with outer show ?thesis by (simp add: re_match_def listp_def)
  next
    case (Cons d rest)
    with outer show ?thesis by (auto simp: re_match_def listp_def)
  qed
qed

subsection \<open>get\_title\<close>

text \<open>
  What holds of \<open>get_title\<close>: when every child before the first header is a \<open>Tag\<close>, the
  text of that header is returned; when every child is a \<open>Tag\<close> and none is a header,
  \<open>ValueError\<close> is raised.
\<close>

lemma get_title_loop_first_header:
  assumes "\<forall>c \<in> set pre. \<exists>n cs. c = Tag n cs \<and> \<not> re_match headerp n"
    and "re_match headerp h"
  shows "get_title_loop (pre @ Tag h hs # post) = Inr (get_text (Tag h hs))"
  using assms by (induction pre) auto

lemma get_title_loop_no_header:
  assumes "\<forall>c \<in> set cs. \<exists>n cs'. c = Tag n cs' \<and> \<not> re_match headerp n"
  shows "get_title_loop cs = Inl ValueError"
  using assms by (induction cs) auto

lemma get_title_loop_text_child:
  assumes "\<forall>c \<in> set pre. \<exists>n cs. c = Tag n cs \<and> \<not> re_match headerp n"
    and "name c = None"
  shows "get_title_loop (pre @ c # post) = Inl TypeError"
  using assms by (induction pre) auto

text \<open>
  Claim C3 fails on the code. A section whose first child is a piece of text (the
  white space between the opening tag and the header, say) has a header among its
  direct children, yet \<open>get_title\<close> raises \<open>TypeError\<close>: the loop hands the name of the
  text child, which is \<open>None\<close>, to \<open>headerp.match\<close>. \<open>sections_backwards\<close> guards the
  same access with \<open>isinstance(child, Tag)\<close>.
\<close>

theorem get_title_text_before_header:
  "get_title (Tag ''section'' [NavigableString '' '', Tag ''h2'' [NavigableString ''History'']])
     = Inl TypeError"
  by simp

subsection \<open>sections\_backwards\<close>

text \<open>
  The positions of \<open>doc_order\<close> are the positions of the tree, each listed once:
  \<open>doc_order\<close> is an enumeration of the elements of the tree.
\<close>


lemma in_shifted:
  "(q, d) \<in> set (map (apfst (Cons i)) xs) \<longleftrightarrow> (\<exists>q'. q = i # q' \<and> (q', d) \<in> set xs)"
  by (induction xs) auto

lemma doc_order_node_at:
  "(q, d) \<in> set (doc_order t) \<longleftrightarrow> node_at t q = Some d"
  "(q, d) \<in> set (doc_order_from i cs) \<longleftrightarrow>
     (\<exists>j q'. q = (i + j) # q' \<and> j < length cs \<and> node_at (cs ! j) q' = Some d)"
proof (induction t and i cs arbitrary: q d and q d rule: doc_order_doc_order_from.induct)
  case (1 n cs)
  then show ?case by (cases q) auto
next
  case (2 s)
  then show ?case by (cases q) auto
next
  case (3 s)
  then show ?case by (cases q) auto
next
  case (4 i)
  then show ?case by simp
next
  case (5 i c cs)
  have "(\<exists>j q'. q = (i + j) # q' \<and> j < length (c # cs) \<and> node_at ((c # cs) ! j) q' = Some d)
      \<longleftrightarrow> (\<exists>q'. q = i # q' \<and> node_at c q' = Some d)
        \<or> (\<exists>j q'. q = (Suc i + j) # q' \<and> j < length cs \<and> node_at (cs ! j) q' = Some d)"
    (is "?L \<longleftrightarrow> ?A \<or> ?B")
  proof
    assume ?L
    then obtain j q' where h: "q = (i + j) # q'" "j < length (c # cs)" "node_at ((c # cs) ! j) q' = Some d"
      by blast
    show "?A \<or> ?B"
    proof (cases j)
      case 0
      with h show ?thesis by simp
    next
      case (Suc j')
      with h have "q = (Suc i + j') # q' \<and> j' < length cs \<and> node_at (cs ! j') q' = Some d"
        by simp
      then show ?thesis by blast
    qed
  next
    assume "?A \<or> ?B"
    then show ?L
    proof
      assume ?A
      then obtain q' where "q = (i + 0) # q'" "0 < length (c # cs)" "node_at ((c # cs) ! 0) q' = Some d"
        by auto
      then show ?L by blast
    next
      assume ?B
      then obtain j q' where "q = (i + Suc j) # q'" "Suc j < length (c # cs)" "node_at ((c # cs) ! Suc j) q' = Some d"
        by auto
      then show ?L by blast
    qed
  qed
  moreover have "(q, d) \<in> set (map (apfst (Cons i)) (doc_order c)) \<longleftrightarrow> (\<exists>q'. q = i # q' \<and> node_at c q' = Some d)"
    using 5(1) by (simp only: in_shifted)
  ultimately show ?case using 5(2) by simp
qed

lemma doc_order_distinct:
  "distinct (map fst (doc_order t))"
  "distinct (map fst (doc_order_from i cs)) \<and>
     (\<forall>x \<in> set (doc_order_from i cs). fst x \<noteq> [] \<and> i \<le> hd (fst x))"
proof (induction t and i cs rule: doc_order_doc_order_from.induct)
  case (1 n cs)
  then show ?case by force
next
  case (2 s)
  then show ?case by simp
next
  case (3 s)
  then show ?case by simp
next
  case (4 i)
  then show ?case by simp
next
  case (5 i c cs)
  have a: "distinct (map fst (map (apfst (Cons i)) (doc_order c)))"
    using 5(1) by (simp add: distinct_map inj_on_def comp_def)
  have b: "\<forall>x \<in> set (map (apfst (Cons i)) (doc_order c)). fst x \<noteq> [] \<and> hd (fst x) = i"
    by auto
  have c: "\<forall>x \<in> set (doc_order_from (Suc i) cs). fst x \<noteq> [] \<and> Suc i \<le> hd (fst x)"
    using 5(2) by blast
  have d: "fst ` set (map (apfst (Cons i)) (doc_order c)) \<inter> fst ` set (doc_order_from (Suc i) cs) = {}"
  proof -
    have "fst x \<noteq> fst y"
      if "x \<in> set (map (apfst (Cons i)) (doc_order c))" "y \<in> set (doc_order_from (Suc i) cs)"
      for x y
    proof -
      from that b c have "hd (fst x) = i" "Suc i \<le> hd (fst y)" by blast+
      then show ?thesis by auto
    qed
    then show ?thesis by blast
  qed
  have e: "distinct (map fst (doc_order_from (Suc i) cs))"
    using 5(2) by blast
  have "distinct (map fst (map (apfst (Cons i)) (doc_order c)) @ map fst (doc_order_from (Suc i) cs))"
    using a e d by (simp only: distinct_append set_map)
  moreover have "\<forall>x \<in> set (doc_order_from i (c # cs)). fst x \<noteq> [] \<and> i \<le> hd (fst x)"
    using b c by fastforce
  ultimately show ?case by simp
qed

lemma section_path_node_at:
  "section_path t q \<Longrightarrow> 0 < k \<Longrightarrow> k \<le> length q \<Longrightarrow>
     \<exists>cs'. node_at t (take k q) = Some (Tag ''section'' cs')"
proof (induction t q arbitrary: k rule: section_path.induct)
  case (1 t)
  then show ?case by simp
next
  case (2 n cs i q)
  show ?case
  proof (cases k)
    case 0
    with 2 show ?thesis by simp
  next
    case (Suc k')
    show ?thesis
    proof (cases k')
      case 0
      with Suc 2 show ?thesis by (cases "cs ! i") auto
    next
      case (Suc k'')
      with \<open>k = Suc k'\<close> 2 show ?thesis by simp
    qed
  qed
next
  case (3 s i q)
  then show ?case by simp
next
  case (4 s i q)
  then show ?case by simp
qed

text \<open>
  The traversal yields the sections that are reached through sections only, in the
  reverse of the document order. The list lemma is stated for the children that remain
  after a prefix \<open>pre\<close>, so that the index of a child is its index in the whole contents.
\<close>



lemma filter_shift:
  assumes "i < length cs" 
  shows "map snd (filter (\<lambda>(q, d). is_section d \<and> section_path (Tag n cs) q) (map (apfst (Cons i)) xs))
       = (if is_section (cs ! i) then map snd (filter (\<lambda>(q, d). is_section d \<and> section_path (cs ! i) q) xs) else [])"
  using assms by (induction xs) auto

lemma children_chain:
  assumes "\<forall>c \<in> set cs. yield_from_child c = (if is_section c then rev (map snd (chained_sections c)) else [])"
  shows "rev (map snd (filter (\<lambda>(q, d). is_section d \<and> section_path (Tag n (pre @ cs)) q)
                 (doc_order_from (length pre) cs)))
         = concat (map yield_from_child (rev cs))"
  using assms
proof (induction cs arbitrary: pre)
  case Nil
  then show ?case by simp
next
  case (Cons c cs)
  have "rev (map snd (filter (\<lambda>(q, d). is_section d \<and> section_path (Tag n ((pre @ [c]) @ cs)) q)
                 (doc_order_from (length (pre @ [c])) cs)))
         = concat (map yield_from_child (rev cs))"
    using Cons.prems by (intro Cons.IH) simp
  moreover have "map snd (filter (\<lambda>(q, d). is_section d \<and> section_path (Tag n (pre @ c # cs)) q)
        (map (apfst (Cons (length pre))) (doc_order c)))
       = (if is_section c then map snd (chained_sections c) else [])"
    by (simp add: filter_shift chained_sections_def)
  ultimately show ?case using Cons.prems by simp
qed

lemma traversal_chain:
  "sections_backwards_Tag n cs = rev (map snd (chained_sections (Tag n cs)))"
  "yield_from_child c = (if is_section c then rev (map snd (chained_sections c)) else [])"
proof (induction n cs and c rule: sections_backwards_Tag_yield_from_child.induct)
  case (1 n cs)
  then have "\<forall>c \<in> set cs. yield_from_child c = (if is_section c then rev (map snd (chained_sections c)) else [])"
    by simp
  from children_chain [OF this, of n "[]"]
  have "concat (map yield_from_child (rev cs))
      = rev (map snd (filter (\<lambda>(q, d). is_section d \<and> section_path (Tag n cs) q) (doc_order_from 0 cs)))"
    by simp
  then show ?case
    by (simp add: chained_sections_def)
next
  case (2 n cs)
  then show ?case by simp
next
  case (3 s)
  then show ?case by simp
next
  case (4 s)
  then show ?case by simp
qed

text \<open>
  The body that \<open>find\<close> returns is a \<open>Tag\<close> of that name, and an element of the tree.
\<close>


lemma find_first_Tag:
  "find_first nm cs = Some t \<Longrightarrow> \<exists>cs'. t = Tag nm cs'"
  by (induction nm cs rule: find_first.induct) (auto split: if_splits option.splits)

lemma find_first_node_at:
  "find_first nm cs = Some b \<Longrightarrow> \<exists>i p. i < length cs \<and> node_at (cs ! i) p = Some b"
proof (induction nm cs rule: find_first.induct)
  case (1 nm)
  then show ?case by simp
next
  case (2 nm n cs rest)
  show ?case
  proof (cases "n = nm")
    case True
    with 2(3) have "node_at ((Tag n cs # rest) ! 0) [] = Some b" by simp
    then show ?thesis by (intro exI [of _ 0] exI [of _ "[]"]) simp
  next
    case False
    show ?thesis
    proof (cases "find_first nm cs")
      case (Some t)
      with False 2(3) have "find_first nm cs = Some b" by simp
      with 2(1) False obtain i p where "i < length cs" "node_at (cs ! i) p = Some b" by blast
      then have "node_at ((Tag n cs # rest) ! 0) (i # p) = Some b" by simp
      then show ?thesis by (intro exI [of _ 0] exI [of _ "i # p"]) simp
    next
      case None
      with False 2(3) have "find_first nm rest = Some b" by simp
      with 2(2) False None obtain i p where "i < length rest" "node_at (rest ! i) p = Some b"
        by blast
      then have "Suc i < length (Tag n cs # rest) \<and> node_at ((Tag n cs # rest) ! Suc i) p = Some b"
        by simp
      then show ?thesis by blast
    qed
  qed
next
  case (3 nm s rest)
  then obtain i p where "i < length rest" "node_at (rest ! i) p = Some b" by auto
  then have "Suc i < length (NavigableString s # rest)
      \<and> node_at ((NavigableString s # rest) ! Suc i) p = Some b"
    by simp
  then show ?case by blast
next
  case (4 nm s rest)
  then obtain i p where "i < length rest" "node_at (rest ! i) p = Some b" by auto
  then have "Suc i < length (OtherString s # rest)
      \<and> node_at ((OtherString s # rest) ! Suc i) p = Some b"
    by simp
  then show ?case by blast
qed

lemma node_at_append:
  "node_at t p = Some u \<Longrightarrow> node_at t (p @ q) = node_at u q"
  by (induction t p rule: node_at.induct) (auto split: if_splits)

lemma chained_all:
  "sections_nested_in_sections t \<Longrightarrow> map snd (chained_sections t) = all_sections t"
proof -
  assume "sections_nested_in_sections t"
  then have "\<forall>x \<in> set (doc_order t). (case x of (q, d) \<Rightarrow> is_section d \<and> section_path t q)
                 = (case x of (q, d) \<Rightarrow> is_section d)"
    by (auto simp: sections_nested_in_sections_def list_all_iff)
  then have "filter (\<lambda>(q, d). is_section d \<and> section_path t q) (doc_order t)
           = filter (\<lambda>(q, d). is_section d) (doc_order t)"
    by (intro filter_cong) auto
  then show ?thesis by (simp add: chained_sections_def all_sections_def)
qed

lemma no_sections_nested:
  "all_sections t = [] \<Longrightarrow> sections_nested_in_sections t"
  by (auto simp: all_sections_def sections_nested_in_sections_def list_all_iff filter_empty_conv)

lemma no_top_level_section:
  "\<forall>c \<in> set ds. \<not> is_section c \<Longrightarrow> nm \<noteq> ''section'' \<Longrightarrow> sections_backwards_Tag nm ds = []"
proof -
  assume a: "\<forall>c \<in> set ds. \<not> is_section c" and "nm \<noteq> ''section''"
  have "yield_from_child c = []" if "c \<in> set ds" for c
    using that a by (simp add: traversal_chain(2))
  with \<open>nm \<noteq> ''section''\<close> show ?thesis by simp
qed

text \<open>
  Claim C10. For a \<open>Tag\<close>, the traversal yields the sections that are reached from it
  through sections only, and no other element, in the reverse of the document order;
  for a document it yields those reached so from the body (the one step that is not a
  step into a section), then those reached so from the top of the document. So a
  section at a position \<open>q\<close> below a non-section element \<open>e\<close> that lies strictly below the
  start of the traversal (\<open>e\<close> is at \<open>take k q\<close> with \<open>0 < k\<close>) is not among the sections
  enumerated; what is enumerated is an element of the tree at the position listed.
\<close>

theorem sections_backwards_only_through_sections:
  "sections_backwards (Element (Tag n cs)) = Inr (rev (map snd (chained_sections (Tag n cs))))
   \<and> sections_backwards (BeautifulSoup ds) =
       (case find_first ''body'' ds of
          None \<Rightarrow> Inl AttributeError
        | Some b \<Rightarrow> Inr (rev (map snd (chained_sections b))
                        @ rev (map snd (chained_sections (Tag ''[document]'' ds)))))
   \<and> (0 < k \<and> k \<le> length q \<and> node_at t (take k q) = Some e \<and> \<not> is_section e \<longrightarrow>
        (q, d) \<notin> set (chained_sections t))
   \<and> ((q, d) \<in> set (chained_sections t) \<longrightarrow> node_at t q = Some d)"
proof (intro conjI impI)
  show "sections_backwards (Element (Tag n cs)) = Inr (rev (map snd (chained_sections (Tag n cs))))"
    by (simp add: traversal_chain(1) del: sections_backwards_Tag.simps)
  show "sections_backwards (BeautifulSoup ds) =
       (case find_first ''body'' ds of
          None \<Rightarrow> Inl AttributeError
        | Some b \<Rightarrow> Inr (rev (map snd (chained_sections b))
                        @ rev (map snd (chained_sections (Tag ''[document]'' ds)))))"
  proof (cases "find_first ''body'' ds")
    case None
    then show ?thesis by simp
  next
    case (Some b)
    then obtain bs where "b = Tag ''body'' bs" using find_first_Tag by blast
    with Some show ?thesis
      by (simp add: traversal_chain(1) del: sections_backwards_Tag.simps)
  qed
  show "(q, d) \<notin> set (chained_sections t)"
    if "0 < k \<and> k \<le> length q \<and> node_at t (take k q) = Some e \<and> \<not> is_section e"
  proof
    assume "(q, d) \<in> set (chained_sections t)"
    then have "section_path t q" by (simp add: chained_sections_def)
    with that obtain cs' where "node_at t (take k q) = Some (Tag ''section'' cs')"
      using section_path_node_at by blast
    with that show False by auto
  qed
  show "node_at t q = Some d" if "(q, d) \<in> set (chained_sections t)"
    using that by (simp add: chained_sections_def doc_order_node_at(1))
qed

theorem sections_backwards_only_through_sections_witness:
  "sections_backwards (Element (Tag ''body'' [Tag ''div'' [Tag ''section'' [Tag ''h2'' []]],
                                              Tag ''section'' [Tag ''h2'' []]]))
     = Inr [Tag ''section'' [Tag ''h2'' []]]
   \<and> node_at (Tag ''body'' [Tag ''div'' [Tag ''section'' [Tag ''h2'' []]],
                             Tag ''section'' [Tag ''h2'' []]]) [0, 0]
       = Some (Tag ''section'' [Tag ''h2'' []])
   \<and> node_at (Tag ''body'' [Tag ''div'' [Tag ''section'' [Tag ''h2'' []]],
                             Tag ''section'' [Tag ''h2'' []]]) (take 1 [0, 0])
       = Some (Tag ''div'' [Tag ''section'' [Tag ''h2'' []]])
   \<and> \<not> is_section (Tag ''div'' [Tag ''section'' [Tag ''h2'' []]])
   \<and> ([0, 0], Tag ''section'' [Tag ''h2'' []])
       \<notin> set (chained_sections (Tag ''body'' [Tag ''div'' [Tag ''section'' [Tag ''h2'' []]],
                                                Tag ''section'' [Tag ''h2'' []]]))
   \<and> ([1], Tag ''section'' [Tag ''h2'' []])
       \<in> set (chained_sections (Tag ''body'' [Tag ''div'' [Tag ''section'' [Tag ''h2'' []]],
                                                Tag ''section'' [Tag ''h2'' []]]))
   \<and> sections_backwards (BeautifulSoup
        [Tag ''html'' [Tag ''body'' [Tag ''div'' [Tag ''section'' [Tag ''h2'' []]]]]]) = Inr []"
  using sections_backwards_only_through_sections
    [where n = "''body''"
       and cs = "[Tag ''div'' [Tag ''section'' [Tag ''h2'' []]], Tag ''section'' [Tag ''h2'' []]]"
       and t = "Tag ''body'' [Tag ''div'' [Tag ''section'' [Tag ''h2'' []]],
                              Tag ''section'' [Tag ''h2'' []]]"
       and q = "[0, 0]" and k = 1 and e = "Tag ''div'' [Tag ''section'' [Tag ''h2'' []]]"
       and d = "Tag ''section'' [Tag ''h2'' []]"
       and ds = "[Tag ''html'' [Tag ''body'' [Tag ''div'' [Tag ''section'' [Tag ''h2'' []]]]]]"]
  by (simp add: chained_sections_def)

text \<open>
  Claim C1, as amended. When every section of a tree is reached from the root of the
  traversal through sections only, \<open>sections_backwards\<close> yields every section of the
  tree once, in the reverse of the document order: nested sections before the section
  that encloses them, later siblings before earlier ones. The same holds of the sections
  of the body of a document that has a body and no section at its top level. A tree
  without sections, and a document with a body and without sections, yield the empty
  sequence. Here the sections of a tree in document order are those of \<open>doc_order\<close>,
  which lists each position of the tree once, with the element found there.
\<close>

theorem sections_backwards_reverse_document_order:
  "(sections_nested_in_sections (Tag n cs) \<longrightarrow>
      sections_backwards (Element (Tag n cs)) = Inr (rev (all_sections (Tag n cs))))
   \<and> (find_first ''body'' ds = Some b \<and> (\<forall>c \<in> set ds. \<not> is_section c)
        \<and> sections_nested_in_sections b \<longrightarrow>
      sections_backwards (BeautifulSoup ds) = Inr (rev (all_sections b)))
   \<and> (all_sections (Tag n cs) = [] \<longrightarrow> sections_backwards (Element (Tag n cs)) = Inr [])
   \<and> (find_first ''body'' ds = Some b \<and> all_sections (Tag ''[document]'' ds) = [] \<longrightarrow>
      sections_backwards (BeautifulSoup ds) = Inr [])
   \<and> distinct (map fst (doc_order t))
   \<and> ((q, d) \<in> set (doc_order t) \<longleftrightarrow> node_at t q = Some d)"
proof (intro conjI impI)
  show "distinct (map fst (doc_order t))"
    by (rule doc_order_distinct(1))
  show "((q, d) \<in> set (doc_order t)) = (node_at t q = Some d)"
    by (rule doc_order_node_at(1))
  have el: "sections_backwards (Element (Tag n cs)) = Inr (rev (all_sections (Tag n cs)))"
    if "sections_nested_in_sections (Tag n cs)" for n cs
    using chained_all [OF that]
    by (simp add: traversal_chain(1) del: sections_backwards_Tag.simps)
  have doc: "sections_backwards (BeautifulSoup ds) = Inr (rev (all_sections b))"
    if h: "find_first ''body'' ds = Some b \<and> (\<forall>c \<in> set ds. \<not> is_section c)
        \<and> sections_nested_in_sections b" for b
  proof -
    from h obtain bs where b: "b = Tag ''body'' bs" using find_first_Tag by blast
    from h have "sections_backwards_Tag ''[document]'' ds = []"
      by (intro no_top_level_section) auto
    moreover from h b have "sections_backwards_Tag ''body'' bs = rev (all_sections b)"
      using chained_all [of b] by (simp add: traversal_chain(1) del: sections_backwards_Tag.simps)
    ultimately show ?thesis using h b by (simp del: sections_backwards_Tag.simps)
  qed
  show "sections_backwards (Element (Tag n cs)) = Inr (rev (all_sections (Tag n cs)))"
    if "sections_nested_in_sections (Tag n cs)"
    using that by (rule el)
  show "sections_backwards (BeautifulSoup ds) = Inr (rev (all_sections b))"
    if "find_first ''body'' ds = Some b \<and> (\<forall>c \<in> set ds. \<not> is_section c)
        \<and> sections_nested_in_sections b"
    using that by (rule doc)
  show "sections_backwards (Element (Tag n cs)) = Inr []" if "all_sections (Tag n cs) = []"
    using el [OF no_sections_nested [OF that]] that by simp
  show "sections_backwards (BeautifulSoup ds) = Inr []"
    if h: "find_first ''body'' ds = Some b \<and> all_sections (Tag ''[document]'' ds) = []"
  proof -
    from h have none: "\<forall>x \<in> set (doc_order (Tag ''[document]'' ds)). \<not> is_section (snd x)"
      by (auto simp: all_sections_def filter_empty_conv)
    have top: "\<forall>c \<in> set ds. \<not> is_section c"
    proof
      fix c assume "c \<in> set ds"
      then obtain j where "j < length ds" "c = ds ! j" by (auto simp: in_set_conv_nth)
      then have "node_at (Tag ''[document]'' ds) [j] = Some c" by simp
      then have "([j], c) \<in> set (doc_order (Tag ''[document]'' ds))"
        by (simp only: doc_order_node_at(1))
      with none show "\<not> is_section c" by force
    qed
    have "all_sections b = []"
    proof -
      from h obtain i p where ip: "i < length ds" "node_at (ds ! i) p = Some b"
        using find_first_node_at by blast
      then have at: "node_at (Tag ''[document]'' ds) (i # p) = Some b" by simp
      have "\<not> is_section (snd x)" if "x \<in> set (doc_order b)" for x
      proof -
        from that have "node_at b (fst x) = Some (snd x)"
          using doc_order_node_at(1) [of "fst x" "snd x" b] by simp
        with at have "node_at (Tag ''[document]'' ds) ((i # p) @ fst x) = Some (snd x)"
          by (simp only: node_at_append)
        then have "((i # p) @ fst x, snd x) \<in> set (doc_order (Tag ''[document]'' ds))"
          by (simp only: doc_order_node_at(1))
        with none show ?thesis by force
      qed
      then show ?thesis by (auto simp: all_sections_def filter_empty_conv)
    qed
    with doc [of b] h top no_sections_nested [of b] show ?thesis by simp
  qed
qed

theorem sections_backwards_reverse_document_order_witness:
  "sections_nested_in_sections
     (Tag ''body'' [Tag ''section'' [Tag ''h2'' [NavigableString ''A''],
                                     Tag ''section'' [Tag ''h3'' [NavigableString ''B'']],
                                     Tag ''section'' [Tag ''h3'' [NavigableString ''C'']]],
                    Tag ''section'' [Tag ''h2'' [NavigableString ''D'']]])
   \<and> sections_backwards (Element
     (Tag ''body'' [Tag ''section'' [Tag ''h2'' [NavigableString ''A''],
                                     Tag ''section'' [Tag ''h3'' [NavigableString ''B'']],
                                     Tag ''section'' [Tag ''h3'' [NavigableString ''C'']]],
                    Tag ''section'' [Tag ''h2'' [NavigableString ''D'']]]))
     = Inr [Tag ''section'' [Tag ''h2'' [NavigableString ''D'']],
            Tag ''section'' [Tag ''h3'' [NavigableString ''C'']],
            Tag ''section'' [Tag ''h3'' [NavigableString ''B'']],
            Tag ''section'' [Tag ''h2'' [NavigableString ''A''],
                             Tag ''section'' [Tag ''h3'' [NavigableString ''B'']],
                             Tag ''section'' [Tag ''h3'' [NavigableString ''C'']]]]
   \<and> find_first ''body'' [Tag ''html'' [Tag ''head'' [], Tag ''body'' [Tag ''section'' [Tag ''h2'' []]]]]
       = Some (Tag ''body'' [Tag ''section'' [Tag ''h2'' []]])
   \<and> \<not> is_section (Tag ''html'' [Tag ''head'' [], Tag ''body'' [Tag ''section'' [Tag ''h2'' []]]])
   \<and> sections_nested_in_sections (Tag ''body'' [Tag ''section'' [Tag ''h2'' []]])
   \<and> sections_backwards (BeautifulSoup
        [Tag ''html'' [Tag ''head'' [], Tag ''body'' [Tag ''section'' [Tag ''h2'' []]]]])
       = Inr [Tag ''section'' [Tag ''h2'' []]]
   \<and> all_sections (Tag ''body'' [Tag ''p'' [NavigableString ''x'']]) = []
   \<and> sections_backwards (Element (Tag ''body'' [Tag ''p'' [NavigableString ''x'']])) = Inr []
   \<and> find_first ''body'' [Tag ''html'' [Tag ''body'' []]] = Some (Tag ''body'' [])
   \<and> all_sections (Tag ''[document]'' [Tag ''html'' [Tag ''body'' []]]) = []
   \<and> sections_backwards (BeautifulSoup [Tag ''html'' [Tag ''body'' []]]) = Inr []"
  using sections_backwards_reverse_document_order
    [where n = "''body''"
       and cs = "[Tag ''section'' [Tag ''h2'' [NavigableString ''A''],
                                     Tag ''section'' [Tag ''h3'' [NavigableString ''B'']],
                                     Tag ''section'' [Tag ''h3'' [NavigableString ''C'']]],
                    Tag ''section'' [Tag ''h2'' [NavigableString ''D'']]]"
       and ds = "[Tag ''html'' [Tag ''head'' [], Tag ''body'' [Tag ''section'' [Tag ''h2'' []]]]]"
       and b = "Tag ''body'' [Tag ''section'' [Tag ''h2'' []]]"]
    sections_backwards_reverse_document_order
    [where n = "''body''" and cs = "[Tag ''p'' [NavigableString ''x'']]"
       and ds = "[Tag ''html'' [Tag ''body'' []]]" and b = "Tag ''body'' []"]
  by (simp add: sections_nested_in_sections_def all_sections_def)

text \<open>
  Claim C1 as stated fails at a section inside a \<open>div\<close>, which the traversal does not
  reach although it is a section of the tree, and at a document without a body, on which
  the traversal raises \<open>AttributeError\<close> although the document has no section.
\<close>

theorem sections_backwards_counterexample:
  "(sections_backwards (BeautifulSoup
      [Tag ''html'' [Tag ''body'' [Tag ''div'' [Tag ''section'' [Tag ''h2'' [NavigableString ''T'']]]]]])
      = Inr []
    \<and> all_sections (Tag ''[document]''
      [Tag ''html'' [Tag ''body'' [Tag ''div'' [Tag ''section'' [Tag ''h2'' [NavigableString ''T'']]]]]])
      = [Tag ''section'' [Tag ''h2'' [NavigableString ''T'']]])
   \<and> (sections_backwards (BeautifulSoup [Tag ''p'' [NavigableString ''x'']]) = Inl AttributeError
    \<and> all_sections (Tag ''[document]'' [Tag ''p'' [NavigableString ''x'']]) = [])"
  by (simp add: all_sections_def)

section \<open>Properties of scripts/extract\_zim\_htmls.py\<close>

subsection \<open>The loop and the try block\<close>

text \<open>
  The lines printed are those of the records converted before the first failure, in
  the order of the records; once the loop has begun an iteration, \<open>doc_no\<close> is bound to
  a number that is at least the start of the count.
\<close>

lemma for_loop_lines:
  "snd (snd (for_loop env i d rs ending outf)) = outf @ lines_of env rs"
  by (induction rs arbitrary: i d outf) (auto split: sum.splits)

lemma for_loop_all_converted:
  assumes "\<forall>h \<in> set rs. \<exists>l. json_line env h = Inr l"
  shows "for_loop env i d rs ending outf
         = (ending, if rs = [] then d else Some (i + length rs - 1), outf @ lines_of env rs)"
    and "length (lines_of env rs) = length rs"
  using assms by (induction rs arbitrary: i d outf) (auto split: sum.splits)

lemma for_loop_failure:
  assumes "\<forall>h \<in> set pre. \<exists>l. json_line env h = Inr l" and "json_line env h = Inl e"
  shows "for_loop env i d (pre @ h # post) ending outf
         = (Some e, Some (i + length pre), outf @ lines_of env pre)"
  using assms by (induction pre arbitrary: i d outf) (auto split: sum.splits)

lemma for_loop_doc_no:
  "rs \<noteq> [] \<Longrightarrow> \<exists>k. fst (snd (for_loop env i d rs ending outf)) = Some k \<and> i \<le> k"
proof (induction rs arbitrary: i d outf)
  case Nil
  then show ?case by simp
next
  case (Cons h rs)
  show ?case
  proof (cases "json_line env h")
    case (Inl e)
    then show ?thesis by simp
  next
    case (Inr l)
    show ?thesis
    proof (cases rs)
      case Nil
      with Inr show ?thesis by simp
    next
      case (Cons h' rs')
      with Cons.IH [of "Suc i" "Some i" "outf @ [l]"]
      obtain k where "fst (snd (for_loop env (Suc i) (Some i) rs ending (outf @ [l]))) = Some k"
        "Suc i \<le> k"
        by auto
      with Inr show ?thesis by auto
    qed
  qed
qed

lemma try_block_doc_no:
  "try_block env inp outp = (exc, doc_no, written) \<Longrightarrow> doc_no \<noteq> Some 0"
proof -
  assume a: "try_block env inp outp = (exc, doc_no, written)"
  show ?thesis
  proof (cases "gzip_open env outp")
    case (Some e)
    with a show ?thesis by (simp add: try_block_def)
  next
    case None
    obtain rs ending where r: "enumerate_static_dump env inp = (rs, ending)" by force
    with None a have d: "doc_no = fst (snd (for_loop env 1 None rs ending []))"
      by (auto simp: try_block_def split: prod.splits)
    show ?thesis
    proof (cases rs)
      case Nil
      with d show ?thesis by simp
    next
      case (Cons h rs')
      then have "rs \<noteq> []" by simp
      from for_loop_doc_no [OF this, of env 1 None ending "[]"] d show ?thesis by auto
    qed
  qed
qed

lemma try_block_no_records:
  "fst (enumerate_static_dump env inp) = [] \<Longrightarrow> fst (snd (try_block env inp outp)) = None"
  by (auto simp: try_block_def split: option.splits prod.splits)

lemma try_block_written:
  "snd (snd (try_block env inp outp)) =
     (case gzip_open env outp of
        Some e \<Rightarrow> None
      | None \<Rightarrow> Some (lines_of env (fst (enumerate_static_dump env inp))))"
proof (cases "gzip_open env outp")
  case None
  obtain rs ending where r: "enumerate_static_dump env inp = (rs, ending)" by force
  obtain exc d out where f: "for_loop env 1 None rs ending [] = (exc, d, out)"
    by (cases "for_loop env 1 None rs ending []") auto
  with for_loop_lines [of env 1 None rs ending "[]"] have "out = lines_of env rs" by simp
  with None r f show ?thesis by (simp add: try_block_def)
next
  case (Some e)
  then show ?thesis by (simp add: try_block_def)
qed

lemma convert_to_json_files:
  "files (snd (convert_to_json env inp outp st)) =
     (case snd (snd (try_block env inp outp)) of
        None \<Rightarrow> files st
      | Some outf \<Rightarrow> (files st)(outp \<mapsto> outf))"
  by (cases "try_block env inp outp")
     (auto simp: convert_to_json_def Let_def logging_def split: option.splits)

subsection \<open>convert\_to\_json\<close>

text \<open>
  Claim C9. When the reader yields no record, whether it is exhausted, signals the
  truncation or fails otherwise, \<open>convert_to_json\<close> raises \<open>UnboundLocalError\<close>: the
  variable \<open>doc_no\<close> is read and was never bound. And \<open>convert_to_json\<close> never returns
  the count 0.
\<close>

theorem convert_to_json_no_record_raises:
  "(fst (enumerate_static_dump env input_file) = [] \<longrightarrow>
      fst (convert_to_json env input_file output_file st) = Inl UnboundLocalError)
   \<and> fst (convert_to_json env input_file output_file st) \<noteq> Inr 0"
proof
  show "fst (enumerate_static_dump env input_file) = [] \<longrightarrow>
      fst (convert_to_json env input_file output_file st) = Inl UnboundLocalError"
  proof
    assume "fst (enumerate_static_dump env input_file) = []"
    then have "fst (snd (try_block env input_file output_file)) = None"
      by (rule try_block_no_records)
    then show "fst (convert_to_json env input_file output_file st) = Inl UnboundLocalError"
      by (auto simp: convert_to_json_def Let_def split: prod.splits option.splits)
  qed
  obtain exc doc_no written where t: "try_block env input_file output_file = (exc, doc_no, written)"
    by (cases "try_block env input_file output_file") auto
  then have "doc_no \<noteq> Some 0" by (rule try_block_doc_no)
  with t show "fst (convert_to_json env input_file output_file st) \<noteq> Inr 0"
    by (auto simp: convert_to_json_def Let_def split: option.splits)
qed

theorem convert_to_json_no_record_raises_witness:
  "fst (enumerate_static_dump example_env ''in/c'') = []
   \<and> fst (convert_to_json example_env ''in/c'' ''out/c'' empty_state) = Inl UnboundLocalError
   \<and> fst (enumerate_static_dump example_env ''in/x'') = []
   \<and> fst (convert_to_json example_env ''in/x'' ''out/x'' empty_state) = Inl UnboundLocalError
   \<and> fst (convert_to_json example_env ''in/b'' ''out/b'' empty_state) = Inr 1"
  using convert_to_json_no_record_raises
      [where env = example_env and input_file = "''in/c''" and output_file = "''out/c''"
         and st = empty_state]
    convert_to_json_no_record_raises
      [where env = example_env and input_file = "''in/x''" and output_file = "''out/x''"
         and st = empty_state]
    convert_to_json_no_record_raises
      [where env = example_env and input_file = "''in/b''" and output_file = "''out/b''"
         and st = empty_state]
  by (simp add: convert_to_json_def try_block_def example_env_def empty_state_def logging_def
      json_line_def)

text \<open>
  What holds of a truncated archive: when the reader signals the truncation after one
  or more records, each of which was converted, the number of these records is returned
  and the output file holds their lines, in the order of the archive.
\<close>

lemma convert_to_json_truncated_after_records:
  assumes "enumerate_static_dump env inp = (rs, Some EOFError)" and "rs \<noteq> []"
    and "\<forall>h \<in> set rs. \<exists>l. json_line env h = Inr l" and "gzip_open env outp = None"
  shows "fst (convert_to_json env inp outp st) = Inr (length rs)"
    and "files (snd (convert_to_json env inp outp st)) outp = Some (lines_of env rs)"
    and "length (lines_of env rs) = length rs"
proof -
  from assms have "try_block env inp outp = (Some EOFError, Some (length rs), Some (lines_of env rs))"
    by (simp add: try_block_def for_loop_all_converted(1))
  then show "fst (convert_to_json env inp outp st) = Inr (length rs)"
    and "files (snd (convert_to_json env inp outp st)) outp = Some (lines_of env rs)"
    by (simp_all add: convert_to_json_def Let_def logging_def)
  from assms(3) show "length (lines_of env rs) = length rs"
    by (rule for_loop_all_converted(2))
qed

text \<open>
  Claim C2 fails on the code when the truncation comes before the first record (K = 0,
  an archive cut off in its header, say): the handler of \<open>EOFError\<close> logs the error and
  then reads \<open>doc_no\<close>, which is unbound, so the call raises \<open>UnboundLocalError\<close>
  instead of returning 0. The output file has been created and is empty.
\<close>

theorem convert_to_json_truncated_before_first_record:
  "enumerate_static_dump example_env ''in/c'' = ([], Some EOFError)
   \<and> fst (convert_to_json example_env ''in/c'' ''out/c'' empty_state) = Inl UnboundLocalError
   \<and> log (snd (convert_to_json example_env ''in/c'' ''out/c'' empty_state))
       = [Debug_Converting ''in/c'' ''out/c'', Log_Error EOFError]
   \<and> files (snd (convert_to_json example_env ''in/c'' ''out/c'' empty_state)) ''out/c'' = Some []"
  by (simp add: convert_to_json_def try_block_def example_env_def empty_state_def logging_def)

text \<open>
  What holds of the other errors: when the conversion of record K raises an exception
  other than \<open>EOFError\<close>, the file name and K are logged and the exception is raised
  again. When the reader raises such an exception after one or more records, the number
  logged is that of the last record read.
\<close>

lemma convert_to_json_record_error:
  assumes "enumerate_static_dump env inp = (pre @ h # post, ending)"
    and "\<forall>h \<in> set pre. \<exists>l. json_line env h = Inr l"
    and "json_line env h = Inl e" and "e \<noteq> EOFError" and "gzip_open env outp = None"
  shows "convert_to_json env inp outp st =
     (Inl e, st\<lparr>files := (files st)(outp \<mapsto> lines_of env pre),
               log := log st @ [Debug_Converting inp outp, Log_Exception inp (Suc (length pre)) e]\<rparr>)"
proof -
  from assms have "try_block env inp outp = (Some e, Some (Suc (length pre)), Some (lines_of env pre))"
    by (simp add: try_block_def for_loop_failure)
  with assms(4) show ?thesis
    by (simp add: convert_to_json_def Let_def logging_def)
qed

lemma convert_to_json_reader_error:
  assumes "enumerate_static_dump env inp = (rs, Some e)" and "rs \<noteq> []"
    and "\<forall>h \<in> set rs. \<exists>l. json_line env h = Inr l"
    and "e \<noteq> EOFError" and "gzip_open env outp = None"
  shows "convert_to_json env inp outp st =
     (Inl e, st\<lparr>files := (files st)(outp \<mapsto> lines_of env rs),
               log := log st @ [Debug_Converting inp outp, Log_Exception inp (length rs) e]\<rparr>)"
proof -
  from assms have "try_block env inp outp = (Some e, Some (length rs), Some (lines_of env rs))"
    by (simp add: try_block_def for_loop_all_converted(1))
  with assms(4) show ?thesis
    by (simp add: convert_to_json_def Let_def logging_def)
qed

text \<open>
  Claim C4 fails on the code when the reader raises an error other than the truncation
  before it has yielded a record (the input path is a directory, say, which
  \<open>os.listdir\<close> lists as well): the message of \<open>logging.exception\<close> reads \<open>doc_no\<close>,
  which is unbound, so nothing is logged and \<open>UnboundLocalError\<close> is raised in place of
  the error of the reader.
\<close>

theorem convert_to_json_reader_error_before_first_record:
  "enumerate_static_dump example_env ''in/d'' = ([], Some (OtherError ''IsADirectoryError''))
   \<and> fst (convert_to_json example_env ''in/d'' ''out/d'' empty_state) = Inl UnboundLocalError
   \<and> log (snd (convert_to_json example_env ''in/d'' ''out/d'' empty_state))
       = [Debug_Converting ''in/d'' ''out/d'']"
  by (simp add: convert_to_json_def try_block_def example_env_def empty_state_def logging_def)

text \<open>
  Claim C7, as amended. When the output file can be opened, it is created, or emptied,
  on opening, whether or not a record is emitted later: after the call it exists whatever
  happened, and holds the lines of the records converted before the first failure, one
  line for each, in the order in which the reader yielded them. No other file is
  touched.
\<close>

theorem convert_to_json_output_file:
  "(gzip_open env output_file = None \<longrightarrow>
      files (snd (convert_to_json env input_file output_file st)) output_file
        = Some (lines_of env (fst (enumerate_static_dump env input_file))))
   \<and> (p \<noteq> output_file \<longrightarrow>
      files (snd (convert_to_json env input_file output_file st)) p = files st p)"
  by (simp add: convert_to_json_files try_block_written split: option.splits)

theorem convert_to_json_output_file_witness:
  "gzip_open example_env ''out/b'' = None \<and> ''out/a'' \<noteq> ''out/b''
   \<and> lines_of example_env (fst (enumerate_static_dump example_env ''in/b'')) = [''q1'']
   \<and> files (snd (convert_to_json example_env ''in/b'' ''out/b'' empty_state)) ''out/b'' = Some [''q1'']
   \<and> files (snd (convert_to_json example_env ''in/a'' ''out/a'' empty_state)) ''out/a''
       = Some [''p1'', ''p2'', ''p3'']
   \<and> files (snd (convert_to_json example_env ''in/a'' ''out/a'' empty_state)) ''out/b'' = None"
  using convert_to_json_output_file
      [where env = example_env and input_file = "''in/b''" and output_file = "''out/b''"
         and st = empty_state and p = "''out/a''"]
    convert_to_json_output_file
      [where env = example_env and input_file = "''in/a''" and output_file = "''out/a''"
         and st = empty_state and p = "''out/b''"]
  by (simp add: example_env_def empty_state_def json_line_def)

text \<open>
  Claim C7 as stated fails: the file is created although no record is ever emitted.
  Here the only record of the archive fails in the parser; the output file did not
  exist before the call and exists, empty, after it.
\<close>

theorem convert_to_json_creates_file_first:
  "files empty_state ''out/e'' = None
   \<and> fst (convert_to_json example_env ''in/e'' ''out/e'' empty_state) = Inl ValueError
   \<and> files (snd (convert_to_json example_env ''in/e'' ''out/e'' empty_state)) ''out/e'' = Some []
   \<and> lines_of example_env (fst (enumerate_static_dump example_env ''in/e'')) = []"
  by (simp add: convert_to_json_def try_block_def example_env_def empty_state_def json_line_def
      logging_def)

subsection \<open>main\<close>




text \<open>
  A task whose calls all return gives their counts in order and leaves the output file
  of each of its pairs in place; the same holds of a run of tasks. When every worker
  returns a count, so does every task.
\<close>

lemma starmapstar_Cons:
  "starmapstar env ((i, q) # chunk) st =
     (case fst (convert_to_json env i q st) of
        Inl e \<Rightarrow> (Inl e, snd (convert_to_json env i q st))
      | Inr k \<Rightarrow>
          (case fst (starmapstar env chunk (snd (convert_to_json env i q st))) of
             Inl e \<Rightarrow> (Inl e, snd (starmapstar env chunk (snd (convert_to_json env i q st))))
           | Inr ks \<Rightarrow>
               (Inr (k # ks), snd (starmapstar env chunk (snd (convert_to_json env i q st))))))"
  by (simp split: prod.splits sum.splits)


















text \<open>
  When a call raises, the pairs that remain in its task are not called. With five
  names and one process the tasks hold two pairs each: the worker on \<open>in/c\<close> raises, so
  \<open>in/a\<close>, which is in the same task and on which the worker would return 3, gets no
  call and no output file, while the other tasks are run; \<open>main\<close> raises.
\<close>

lemma starmapstar_skips_after_raise:
  "fst (convert_to_json env i q st) = Inl e \<Longrightarrow>
     starmapstar env ((i, q) # rest) st = (Inl e, snd (convert_to_json env i q st))"
  by (simp only: starmapstar_Cons) simp

lemma main_raise_skips_rest_of_chunk:
  "get_tasks (in_out_files example_args_one [''c'', ''a'', ''b'', ''d'', ''e''])
      (chunksize 5 (processes example_args_one))
     = [[(''in/c'', ''out/c''), (''in/a'', ''out/a'')],
        [(''in/b'', ''out/b''), (''in/d'', ''out/d'')],
        [(''in/e'', ''out/e'')]]
   \<and> fst (main example_env_five example_args_one empty_state) = Inl UnboundLocalError
   \<and> files (snd (main example_env_five example_args_one empty_state)) ''out/c'' = Some []
   \<and> files (snd (main example_env_five example_args_one empty_state)) ''out/a'' = None
   \<and> files (snd (main example_env_five example_args_one empty_state)) ''out/b'' = Some [''q1'']
   \<and> worker_outcome example_env_five ''in/a'' ''out/a'' = Inr 3"
  by (simp add: main_def pool_starmap_def get_tasks.simps chunksize_def in_out_files_def
      op_join_def convert_to_json_def try_block_def json_line_def logging_def worker_outcome_def
      example_env_five_def example_env_def example_args_one_def empty_state_def)

end
